theory Spec2Isabelle
  imports Main "HOL-Library.Sublist"
begin

section \<open>Text primitives of the manifest scripts\<close>

text \<open>
  The scripts under \<^verbatim>\<open>src/ios\<close> treat the project manifest
  (\<^verbatim>\<open>project.pbxproj\<close>) as one Python \<^verbatim>\<open>str\<close> and edit it with
  \<^verbatim>\<open>str.find\<close>, slicing and the \<^verbatim>\<open>re\<close> module.  A manifest is modelled
  as a \<^typ>\<open>string\<close>; one \<^typ>\<open>char\<close> stands for one code point in the range 0..255.
\<close>

abbreviation TAB :: char where "TAB \<equiv> CHR 0x09"
abbreviation NL :: char where "NL \<equiv> CHR 0x0A"

subsection \<open>Python string operations\<close>

text \<open>\<^verbatim>\<open>str.isspace\<close> per character, as used by \<^verbatim>\<open>strip\<close>, \<^verbatim>\<open>rstrip\<close> and the
  pattern \<^verbatim>\<open>\s\<close>.\<close>

definition is_space :: "char \<Rightarrow> bool" where
  "is_space c \<longleftrightarrow> c \<in> set [CHR 0x09, CHR 0x0A, CHR 0x0B, CHR 0x0C, CHR 0x0D,
     CHR 0x1C, CHR 0x1D, CHR 0x1E, CHR 0x1F, CHR 0x20, CHR 0x85, CHR 0xA0]"

definition lstrip :: "string \<Rightarrow> string" where
  "lstrip s = dropWhile is_space s"

definition rstrip :: "string \<Rightarrow> string" where
  "rstrip s = rev (dropWhile is_space (rev s))"

definition strip :: "string \<Rightarrow> string" where
  "strip s = rstrip (lstrip s)"

text \<open>\<^verbatim>\<open>s.find(sub)\<close>: the lowest index at which \<^verbatim>\<open>sub\<close> occurs, or \<open>-1\<close>.\<close>

fun find :: "string \<Rightarrow> string \<Rightarrow> int" where
  "find sub [] = (if sub = [] then 0 else -1)"
| "find sub (x # xs) =
     (if take (length sub) (x # xs) = sub then 0
      else (let r = find sub xs in if r < 0 then -1 else r + 1))"

text \<open>\<^verbatim>\<open>sub in s\<close>.\<close>

definition isin :: "string \<Rightarrow> string \<Rightarrow> bool" where
  "isin sub s \<longleftrightarrow> find sub s \<noteq> -1"

text \<open>Slices \<^verbatim>\<open>s[:i]\<close> and \<^verbatim>\<open>s[i:]\<close>; a negative index counts from the end
  and is clamped at the start of the string.\<close>

definition slice_to :: "string \<Rightarrow> int \<Rightarrow> string" where
  "slice_to s i = (if i < 0 then take (nat (int (length s) + i)) s else take (nat i) s)"

definition slice_from :: "string \<Rightarrow> int \<Rightarrow> string" where
  "slice_from s i = (if i < 0 then drop (nat (int (length s) + i)) s else drop (nat i) s)"

text \<open>\<^verbatim>\<open>s.replace(old, new)\<close>: every non-overlapping occurrence, left to right.\<close>

function replace :: "string \<Rightarrow> string \<Rightarrow> string \<Rightarrow> string" where
  "replace old new [] = (if old = [] then new else [])"
| "replace old new (x # xs) =
     (if old = [] then new @ x # replace old new xs
      else if take (length old) (x # xs) = old
        then new @ replace old new (drop (length old) (x # xs))
      else x # replace old new xs)"
  by pat_completeness auto
termination
  by (relation "measure (\<lambda>(old, new, s). length s)") auto

subsection \<open>The fragment of \<^verbatim>\<open>re\<close> the scripts use\<close>

text \<open>
  Every pattern in the scripts is a sequence of literals and of quantifiers over one
  character class.  A list of atoms is such a sequence; a class is its
  membership predicate.  \<open>Star\<close> is the greedy \<^verbatim>\<open>*\<close>, \<open>Plus\<close> the greedy
  \<^verbatim>\<open>+\<close>, \<open>StarLazy\<close> is \<^verbatim>\<open>*?\<close>, \<open>Rep n\<close> is \<^verbatim>\<open>{n}\<close> and \<open>Opt\<close> the
  greedy \<^verbatim>\<open>?\<close>.
\<close>

datatype atom =
    Lit string
  | Star "char \<Rightarrow> bool"
  | Plus "char \<Rightarrow> bool"
  | StarLazy "char \<Rightarrow> bool"
  | Rep nat "char \<Rightarrow> bool"
  | Opt "char \<Rightarrow> bool"

text \<open>A match at the start of a string yields the piece consumed by each atom and the
  unread rest.  \<open>emit\<close> records the piece of the atom just matched, \<open>push\<close> extends
  the piece of the quantifier being iterated.\<close>

type_synonym pieces = "string list \<times> string"

fun emit :: "string \<Rightarrow> pieces option \<Rightarrow> pieces option" where
  "emit p None = None"
| "emit p (Some (ps, r)) = Some (p # ps, r)"

fun push :: "char \<Rightarrow> pieces option \<Rightarrow> pieces option" where
  "push x None = None"
| "push x (Some ([], r)) = None"
| "push x (Some (p # ps, r)) = Some ((x # p) # ps, r)"

text \<open>Backtracking in the order of \<^verbatim>\<open>re\<close>: a greedy quantifier first tries to take
  one more character and gives it back only when the remainder of the pattern fails; a
  lazy one first tries the remainder.\<close>

function match_seq :: "atom list \<Rightarrow> string \<Rightarrow> pieces option" where
  "match_seq [] s = Some ([], s)"
| "match_seq (Lit l # as) s =
     (if take (length l) s = l then emit l (match_seq as (drop (length l) s)) else None)"
| "match_seq (Star c # as) [] = emit [] (match_seq as [])"
| "match_seq (Star c # as) (x # xs) =
     (case (if c x then push x (match_seq (Star c # as) xs) else None) of
        Some m \<Rightarrow> Some m
      | None \<Rightarrow> emit [] (match_seq as (x # xs)))"
| "match_seq (Plus c # as) [] = None"
| "match_seq (Plus c # as) (x # xs) =
     (if c x then push x (match_seq (Star c # as) xs) else None)"
| "match_seq (StarLazy c # as) [] = emit [] (match_seq as [])"
| "match_seq (StarLazy c # as) (x # xs) =
     (case emit [] (match_seq as (x # xs)) of
        Some m \<Rightarrow> Some m
      | None \<Rightarrow> (if c x then push x (match_seq (StarLazy c # as) xs) else None))"
| "match_seq (Rep n c # as) s =
     (if n \<le> length s \<and> list_all c (take n s)
      then emit (take n s) (match_seq as (drop n s)) else None)"
| "match_seq (Opt c # as) [] = emit [] (match_seq as [])"
| "match_seq (Opt c # as) (x # xs) =
     (case (if c x then emit [x] (match_seq as xs) else None) of
        Some m \<Rightarrow> Some m
      | None \<Rightarrow> emit [] (match_seq as (x # xs)))"
  by pat_completeness auto
termination
  by (relation "measure (\<lambda>(as, s). length as + length s)") auto

text \<open>\<^verbatim>\<open>re.search\<close>: the first start position, from the left, at which the pattern
  matches.  The result is the text before the match, the pieces, and the text after.\<close>

type_synonym rmatch = "string \<times> string list \<times> string"

fun search_from :: "atom list \<Rightarrow> string \<Rightarrow> string \<Rightarrow> rmatch option" where
  "search_from as pre [] =
     (case match_seq as [] of Some (ps, r) \<Rightarrow> Some (pre, ps, r) | None \<Rightarrow> None)"
| "search_from as pre (x # xs) =
     (case match_seq as (x # xs) of
        Some (ps, r) \<Rightarrow> Some (pre, ps, r)
      | None \<Rightarrow> search_from as (pre @ [x]) xs)"

definition re_search :: "atom list \<Rightarrow> string \<Rightarrow> rmatch option" where
  "re_search as s = search_from as [] s"

text \<open>\<^verbatim>\<open>m.start()\<close>, \<^verbatim>\<open>m.end()\<close> and the text of a group that spans the atoms
  \<open>i, \<dots>, i + n - 1\<close> of the pattern.\<close>

definition m_start :: "rmatch \<Rightarrow> int" where
  "m_start m = (case m of (pre, ps, r) \<Rightarrow> int (length pre))"

definition m_end :: "rmatch \<Rightarrow> int" where
  "m_end m = (case m of (pre, ps, r) \<Rightarrow> int (length pre + length (concat ps)))"

definition grp :: "string list \<Rightarrow> nat \<Rightarrow> nat \<Rightarrow> string" where
  "grp ps i n = concat (take n (drop i ps))"


lemma emit_Some:
  "emit p m = Some (qs, r) \<longleftrightarrow> (\<exists>ps. m = Some (ps, r) \<and> qs = p # ps)"
  by (cases "(p, m)" rule: emit.cases) auto

lemma push_Some:
  "push x m = Some (qs, r) \<longleftrightarrow> (\<exists>p ps. m = Some (p # ps, r) \<and> qs = (x # p) # ps)"
  by (cases "(x, m)" rule: push.cases) auto

text \<open>The pieces of a match, one per atom, followed by the rest spell the input.\<close>

lemma match_seq_split:
  "match_seq as s = Some (ps, r) \<Longrightarrow> concat ps @ r = s \<and> length ps = length as"
proof (induction as s arbitrary: ps r rule: match_seq.induct)
  case (2 l as s)
  then show ?case
    by (auto simp: emit_Some split: if_splits) (metis append_take_drop_id)
next
  case (9 n c as s)
  then show ?case by (auto simp: emit_Some split: if_splits)
qed (auto simp: emit_Some push_Some split: if_splits option.splits)

lemma search_from_split:
  "search_from as pre s = Some (pre', ps, r) \<Longrightarrow>
     pre' @ concat ps @ r = pre @ s \<and> length ps = length as"
proof (induction s arbitrary: pre)
  case Nil
  then show ?case by (auto split: option.splits dest: match_seq_split)
next
  case (Cons x xs)
  then show ?case by (auto split: option.splits dest: match_seq_split)
qed

lemma re_search_split:
  "re_search as s = Some (pre, ps, r) \<Longrightarrow> pre @ concat ps @ r = s \<and> length ps = length as"
  using search_from_split[of as "[]" s pre ps r] by (simp add: re_search_def)

text \<open>What the piece of an atom looks like.\<close>

fun conforms :: "atom \<Rightarrow> string \<Rightarrow> bool" where
  "conforms (Lit l) p \<longleftrightarrow> p = l"
| "conforms (Star c) p \<longleftrightarrow> list_all c p"
| "conforms (Plus c) p \<longleftrightarrow> p \<noteq> [] \<and> list_all c p"
| "conforms (StarLazy c) p \<longleftrightarrow> list_all c p"
| "conforms (Rep n c) p \<longleftrightarrow> length p = n \<and> list_all c p"
| "conforms (Opt c) p \<longleftrightarrow> length p \<le> 1 \<and> list_all c p"

lemma match_seq_conforms:
  "match_seq as s = Some (ps, r) \<Longrightarrow> list_all2 conforms as ps"
  by (induction as s arbitrary: ps r rule: match_seq.induct)
     (auto simp: emit_Some push_Some split: if_splits option.splits)

lemma search_from_conforms:
  "search_from as pre s = Some (pre', ps, r) \<Longrightarrow> list_all2 conforms as ps"
  by (induction s arbitrary: pre) (auto split: option.splits dest: match_seq_conforms)

lemma re_search_conforms:
  "re_search as s = Some (pre, ps, r) \<Longrightarrow> list_all2 conforms as ps"
  unfolding re_search_def by (rule search_from_conforms)

lemma slice_to_append: "slice_to (pre @ s) (int (length pre)) = pre"
  by (simp add: slice_to_def)

lemma slice_from_append: "slice_from (pre @ mid @ r) (int (length pre + length mid)) = r"
  by (simp add: slice_from_def)

text \<open>\<^verbatim>\<open>re.findall\<close> and \<^verbatim>\<open>re.sub\<close>: the non-overlapping matches from left to
  right.  After an empty match the scan moves on by one character, which \<^verbatim>\<open>sub\<close>
  copies.  \<open>re_findall\<close> returns the pieces of each match; \<open>re_sub\<close> takes the
  replacement as a function of the pieces.\<close>

function re_findall :: "atom list \<Rightarrow> string \<Rightarrow> string list list" where
  "re_findall as s =
     (case re_search as s of
        None \<Rightarrow> []
      | Some (pre, ps, r) \<Rightarrow>
          ps # (if concat ps = [] then (case r of [] \<Rightarrow> [] | x # xs \<Rightarrow> re_findall as xs)
                else re_findall as r))"
  by pat_completeness auto
termination
proof (relation "measure (\<lambda>(as, s). length s)", goal_cases)
  case 1
  then show ?case by simp
next
  case (2 as s m pre y ps r x xs)
  then have "pre @ concat ps @ r = s" using re_search_split[of as s pre ps r] by simp
  with 2 show ?case by auto
next
  case (3 as s m pre y ps r)
  then have "pre @ concat ps @ r = s" using re_search_split[of as s pre ps r] by simp
  with 3 show ?case by (cases "concat ps") auto
qed

function re_sub :: "atom list \<Rightarrow> (string list \<Rightarrow> string) \<Rightarrow> string \<Rightarrow> string" where
  "re_sub as repl s =
     (case re_search as s of
        None \<Rightarrow> s
      | Some (pre, ps, r) \<Rightarrow>
          pre @ repl ps @
            (if concat ps = [] then (case r of [] \<Rightarrow> [] | x # xs \<Rightarrow> x # re_sub as repl xs)
             else re_sub as repl r))"
  by pat_completeness auto
termination
proof (relation "measure (\<lambda>(as, repl, s). length s)", goal_cases)
  case 1
  then show ?case by simp
next
  case (2 as repl s m pre y ps r x xs)
  then have "pre @ concat ps @ r = s" using re_search_split[of as s pre ps r] by simp
  with 2 show ?case by auto
next
  case (3 as repl s m pre y ps r)
  then have "pre @ concat ps @ r = s" using re_search_split[of as s pre ps r] by simp
  with 3 show ?case by (cases "concat ps") auto
qed

declare re_findall.simps [simp del]
declare re_sub.simps [simp del]

section \<open>\<^verbatim>\<open>dedupe_sources.py\<close>: deduplicating the Sources build phase\<close>

text \<open>The pattern of lines 24 to 27,
  \<^verbatim>\<open>(/\* Sources \*/ = \{[^}]*isa = PBXSourcesBuildPhase;[^}]*files = \()([^)]+)(\);)\<close>:
  group 1 is atoms 0 to 4, group 2 is atom 5, group 3 is atom 6.\<close>

definition sources_rx :: "atom list" where
  "sources_rx =
     [Lit ''/* Sources */ = {'', Star (\<lambda>c. c \<noteq> CHR ''}''),
      Lit ''isa = PBXSourcesBuildPhase;'', Star (\<lambda>c. c \<noteq> CHR ''}''),
      Lit ''files = ('',
      Plus (\<lambda>c. c \<noteq> CHR '')''),
      Lit '');'']"

text \<open>The pattern of line 38, \<^verbatim>\<open>[\t ]*([A-F0-9]{24}) /\* ([^*]+) \*/,?\<close>: group 1 is
  atom 1, group 2 is atom 3.\<close>

definition is_hex_upper :: "char \<Rightarrow> bool" where
  "is_hex_upper c \<longleftrightarrow> c \<in> set ''ABCDEF0123456789''"

definition entry_rx :: "atom list" where
  "entry_rx =
     [Star (\<lambda>c. c = TAB \<or> c = CHR '' ''),
      Rep 24 is_hex_upper,
      Lit '' /* '',
      Plus (\<lambda>c. c \<noteq> CHR ''*''),
      Lit '' */'', Opt (\<lambda>c. c = CHR '','')]"

type_synonym entry = "string \<times> string"

definition file_entries :: "string \<Rightarrow> entry list" where
  "file_entries files_section =
     map (\<lambda>ps. (grp ps 1 1, grp ps 3 1)) (re_findall entry_rx files_section)"

text \<open>Line 49: the name with \<^verbatim>\<open>" in Sources"\<close> removed, stripped.\<close>

definition filename_of :: "string \<Rightarrow> string" where
  "filename_of name = strip (replace '' in Sources'' [] name)"

text \<open>The loop of lines 43 to 56 over \<^verbatim>\<open>file_entries\<close>, with its three variables
  \<^verbatim>\<open>seen_files\<close>, \<^verbatim>\<open>unique_entries\<close> and \<^verbatim>\<open>duplicates_removed\<close>.\<close>

fun dedupe_loop :: "entry list \<Rightarrow> string set \<Rightarrow> entry list \<Rightarrow> nat \<Rightarrow> entry list \<times> nat" where
  "dedupe_loop [] seen_files unique_entries duplicates_removed =
     (unique_entries, duplicates_removed)"
| "dedupe_loop ((uuid, name) # es) seen_files unique_entries duplicates_removed =
     (let filename = filename_of name in
      if filename \<notin> seen_files
      then dedupe_loop es (insert filename seen_files) (unique_entries @ [(uuid, name)])
             duplicates_removed
      else dedupe_loop es seen_files unique_entries (duplicates_removed + 1))"

definition unique_entries :: "entry list \<Rightarrow> entry list" where
  "unique_entries es = fst (dedupe_loop es {} [] 0)"

definition duplicates_removed :: "entry list \<Rightarrow> nat" where
  "duplicates_removed es = snd (dedupe_loop es {} [] 0)"

text \<open>Lines 62 to 65: the files section is rebuilt from the entries kept.\<close>

definition entry_row :: "entry \<Rightarrow> string" where
  "entry_row e = (case e of (uuid, name) \<Rightarrow>
     [TAB, TAB, TAB, TAB] @ uuid @ '' /* '' @ name @ '' */,'' @ [NL])"

definition new_files :: "entry list \<Rightarrow> string" where
  "new_files es = foldl (\<lambda>acc e. acc @ entry_row e) [NL] es @ [TAB, TAB, TAB]"

text \<open>\<^verbatim>\<open>deduplicate_sources\<close>, as a function of the text read from the project file:
  \<open>None\<close> when the function returns at line 31 without writing, otherwise the text
  passed to \<^verbatim>\<open>write_project\<close>.\<close>

definition deduplicate_sources :: "string \<Rightarrow> string option" where
  "deduplicate_sources content =
     (case re_search sources_rx content of
        None \<Rightarrow> None
      | Some m \<Rightarrow>
          (case m of (pre, ps, r) \<Rightarrow>
            let prefix = grp ps 0 5;
                files_section = grp ps 5 1;
                suffix = grp ps 6 1;
                new_sources = prefix @ new_files (unique_entries (file_entries files_section)) @ suffix
            in Some (slice_to content (m_start m) @ new_sources @ slice_from content (m_end m))))"


text \<open>\<^verbatim>\<open>read_project\<close> (lines 12 to 14) opens the project file in text mode, so every
  line end of the file reaches the script as a single line feed: a carriage return followed
  by a line feed and a carriage return alone are both read as one line feed.  The file is
  given as the characters stored in it.\<close>

abbreviation CR :: char where "CR \<equiv> CHR 0x0D"

fun universal_newlines :: "string \<Rightarrow> string" where
  "universal_newlines [] = []"
| "universal_newlines [c] = [if c = CR then NL else c]"
| "universal_newlines (c # d # cs) =
     (if c = CR then NL # universal_newlines (if d = NL then cs else d # cs)
      else c # universal_newlines (d # cs))"

definition read_project :: "string \<Rightarrow> string" where
  "read_project file = universal_newlines file"

text \<open>\<^verbatim>\<open>write_project\<close> (lines 16 to 18) writes the text in text mode as well; the script
  runs where the line separator is the line feed (line 8 changes to a directory below
  \<^verbatim>\<open>/Users\<close>), so the characters written are those of the text.\<close>

definition write_project :: "string \<Rightarrow> string" where
  "write_project content = content"

text \<open>One run of the script on a project file: \<open>None\<close> when the file is not written,
  otherwise the characters of the file after the run.\<close>

definition deduplicate_sources_file :: "string \<Rightarrow> string option" where
  "deduplicate_sources_file file =
     map_option write_project (deduplicate_sources (read_project file))"


section \<open>The block that \<^verbatim>\<open>deduplicate_sources\<close> rewrites\<close>

lemma grp_seven:
  assumes "length ps = 7"
  shows "concat ps = grp ps 0 5 @ grp ps 5 1 @ grp ps 6 1"
proof -
  from assms obtain a b c d e f g where "ps = [a, b, c, d, e, f, g]"
    by (auto simp: eval_nat_numeral length_Suc_conv)
  then show ?thesis by (simp add: grp_def)
qed

lemma sources_match_shape:
  assumes "re_search sources_rx content = Some (pre, ps, post)"
  shows "\<exists>w1 w2 g2. ps = [''/* Sources */ = {'', w1, ''isa = PBXSourcesBuildPhase;'', w2,
                          ''files = ('', g2, '');'']
           \<and> CHR ''}'' \<notin> set w1 \<and> CHR ''}'' \<notin> set w2 \<and> g2 \<noteq> [] \<and> CHR '')'' \<notin> set g2"
proof -
  from re_search_conforms[OF assms]
  have "list_all2 conforms sources_rx ps" .
  then show ?thesis
    by (auto simp: sources_rx_def list_all2_Cons1 list_all_iff)
qed

lemma dedupe_Some:
  assumes "re_search sources_rx content = Some (pre, ps, post)"
  shows "content = pre @ grp ps 0 5 @ grp ps 5 1 @ grp ps 6 1 @ post"
    and "deduplicate_sources content =
       Some (pre @ grp ps 0 5 @ new_files (unique_entries (file_entries (grp ps 5 1)))
               @ grp ps 6 1 @ post)"
proof -
  from re_search_split[OF assms] have c: "pre @ concat ps @ post = content" and l: "length ps = 7"
    by (simp_all add: sources_rx_def)
  show "content = pre @ grp ps 0 5 @ grp ps 5 1 @ grp ps 6 1 @ post"
    using c grp_seven[OF l] by simp
  have "slice_to content (m_start (pre, ps, post)) = pre"
    using slice_to_append[of pre "concat ps @ post"] c by (simp add: m_start_def)
  moreover have "slice_from content (m_end (pre, ps, post)) = post"
    using slice_from_append[of pre "concat ps" post] c by (simp add: m_end_def)
  ultimately show "deduplicate_sources content =
       Some (pre @ grp ps 0 5 @ new_files (unique_entries (file_entries (grp ps 5 1)))
               @ grp ps 6 1 @ post)"
    using assms by (simp add: deduplicate_sources_def Let_def)
qed

text \<open>A Sources build phase that lists \<^verbatim>\<open>A.swift\<close> twice, and what the pattern of
  lines 24 to 27 finds in it.\<close>

definition ex_sources :: string where
  "ex_sources = [TAB, TAB] @ ''J01 /* Sources */ = {'' @ [NL]
     @ [TAB, TAB, TAB] @ ''isa = PBXSourcesBuildPhase;'' @ [NL]
     @ [TAB, TAB, TAB] @ ''files = ('' @ [NL]
     @ [TAB, TAB, TAB, TAB] @ ''AAAAAAAAAAAAAAAAAAAAAA01 /* A.swift in Sources */,'' @ [NL]
     @ [TAB, TAB, TAB, TAB] @ ''AAAAAAAAAAAAAAAAAAAAAA02 /* A.swift in Sources */,'' @ [NL]
     @ [TAB, TAB, TAB] @ '');'' @ [NL]
     @ [TAB, TAB] @ ''};'' @ [NL]"

lemma ex_sources_search:
  "re_search sources_rx ex_sources =
     Some ([TAB, TAB] @ ''J01 '',
       [''/* Sources */ = {'', [NL, TAB, TAB, TAB], ''isa = PBXSourcesBuildPhase;'',
        [NL, TAB, TAB, TAB], ''files = ('',
        [NL, TAB, TAB, TAB, TAB] @ ''AAAAAAAAAAAAAAAAAAAAAA01 /* A.swift in Sources */,'' @ [NL]
          @ [TAB, TAB, TAB, TAB] @ ''AAAAAAAAAAAAAAAAAAAAAA02 /* A.swift in Sources */,'' @ [NL]
          @ [TAB, TAB, TAB],
        '');''],
       [NL, TAB, TAB] @ ''};'' @ [NL])"
  unfolding ex_sources_def by code_simp

lemma ex_sources_new_files:
  "new_files (unique_entries (file_entries
     ([NL, TAB, TAB, TAB, TAB] @ ''AAAAAAAAAAAAAAAAAAAAAA01 /* A.swift in Sources */,'' @ [NL]
        @ [TAB, TAB, TAB, TAB] @ ''AAAAAAAAAAAAAAAAAAAAAA02 /* A.swift in Sources */,'' @ [NL]
        @ [TAB, TAB, TAB])))
   = [NL, TAB, TAB, TAB, TAB] @ ''AAAAAAAAAAAAAAAAAAAAAA01 /* A.swift in Sources */,'' @ [NL]
        @ [TAB, TAB, TAB]"
  by code_simp

lemma universal_newlines_id: "CR \<notin> set s \<Longrightarrow> universal_newlines s = s"
  by (induction s rule: universal_newlines.induct) auto

lemma universal_newlines_no_CR: "CR \<notin> set (universal_newlines s)"
  by (induction s rule: universal_newlines.induct) auto

text \<open>
  Claim C10 (as the script behaves).  The run rewrites only the files list of the matched
  block of the text it reads: the text before the match, group 1 (up to \<^verbatim>\<open>files = (\<close>),
  the closing \<^verbatim>\<open>);\<close> and the text after the match are written back as they were read,
  and when the pattern does not match nothing is written.  The text read is the file with
  its line ends translated, so what holds of the text holds of the stored characters when
  the file has no carriage return.
\<close>

theorem dedupe_frame_of_text_read:
  "(CR \<notin> set file \<longrightarrow> read_project file = file) \<and>
   (case re_search sources_rx (read_project file) of
      None \<Rightarrow> deduplicate_sources_file file = None
    | Some (pre, ps, post) \<Rightarrow>
        read_project file = pre @ grp ps 0 5 @ grp ps 5 1 @ '');'' @ post \<and>
        deduplicate_sources_file file =
          Some (pre @ grp ps 0 5 @ new_files (unique_entries (file_entries (grp ps 5 1)))
                  @ '');'' @ post))"
proof (intro conjI impI)
  assume "CR \<notin> set file"
  then show "read_project file = file" by (simp add: read_project_def universal_newlines_id)
next
  let ?content = "read_project file"
  show "case re_search sources_rx ?content of
      None \<Rightarrow> deduplicate_sources_file file = None
    | Some (pre, ps, post) \<Rightarrow>
        ?content = pre @ grp ps 0 5 @ grp ps 5 1 @ '');'' @ post \<and>
        deduplicate_sources_file file =
          Some (pre @ grp ps 0 5 @ new_files (unique_entries (file_entries (grp ps 5 1)))
                  @ '');'' @ post)"
  proof (cases "re_search sources_rx ?content")
    case None
    then show ?thesis by (simp add: deduplicate_sources_def deduplicate_sources_file_def)
  next
    case (Some m)
    obtain pre ps post where m: "m = (pre, ps, post)" by (cases m)
    from sources_match_shape[OF Some[unfolded m]] have g3: "grp ps 6 1 = '');''"
      by (auto simp: grp_def)
    have a: "?content = pre @ grp ps 0 5 @ grp ps 5 1 @ '');'' @ post"
      using dedupe_Some(1)[OF Some[unfolded m]] unfolding g3 .
    have b: "deduplicate_sources_file file =
           Some (pre @ grp ps 0 5 @ new_files (unique_entries (file_entries (grp ps 5 1)))
                   @ '');'' @ post)"
      using dedupe_Some(2)[OF Some[unfolded m]] unfolding g3
      by (simp add: deduplicate_sources_file_def write_project_def)
    show ?thesis
      unfolding Some m option.case prod.case by (intro conjI a b)
  qed
qed

lemma ex_sources_no_CR: "CR \<notin> set ex_sources"
  unfolding ex_sources_def by simp

theorem dedupe_frame_of_text_read_witness:
  "read_project ex_sources = ex_sources \<and>
   deduplicate_sources_file ex_sources =
     Some (([TAB, TAB] @ ''J01 '')
       @ (''/* Sources */ = {'' @ [NL, TAB, TAB, TAB] @ ''isa = PBXSourcesBuildPhase;''
            @ [NL, TAB, TAB, TAB] @ ''files = ('')
       @ ([NL, TAB, TAB, TAB, TAB] @ ''AAAAAAAAAAAAAAAAAAAAAA01 /* A.swift in Sources */,'' @ [NL]
            @ [TAB, TAB, TAB])
       @ '');'' @ ([NL, TAB, TAB] @ ''};'' @ [NL]))"
proof -
  have r: "read_project ex_sources = ex_sources"
    using dedupe_frame_of_text_read[of ex_sources] ex_sources_no_CR by simp
  show ?thesis
    using dedupe_frame_of_text_read[of ex_sources] ex_sources_new_files
    unfolding r by (simp add: ex_sources_search grp_def)
qed

text \<open>A project file with CR LF line ends: the run rewrites the line end of the first
  line, which lies before the block, and every line end after the block.\<close>

definition ex_crlf :: string where
  "ex_crlf = ''// x'' @ [CR, NL] @ ''/* Sources */ = {isa = PBXSourcesBuildPhase;files = ('' @ [CR, NL]
     @ [TAB, TAB, TAB, TAB] @ ''AAAAAAAAAAAAAAAAAAAAAA01 /* A.swift in Sources */,'' @ [CR, NL]
     @ '');'' @ [CR, NL] @ ''};'' @ [CR, NL]"

definition ex_crlf_out :: string where
  "ex_crlf_out = ''// x'' @ [NL] @ ''/* Sources */ = {isa = PBXSourcesBuildPhase;files = ('' @ [NL]
     @ [TAB, TAB, TAB, TAB] @ ''AAAAAAAAAAAAAAAAAAAAAA01 /* A.swift in Sources */,'' @ [NL]
     @ [TAB, TAB, TAB] @ '');'' @ [NL] @ ''};'' @ [NL]"

theorem dedupe_frame_counterexample:
  "deduplicate_sources_file ex_crlf = Some ex_crlf_out
   \<and> take 6 ex_crlf = ''// x'' @ [CR, NL]
   \<and> take 6 ex_crlf_out = ''// x'' @ [NL] @ ''/''"
  unfolding ex_crlf_def ex_crlf_out_def by code_simp


section \<open>Properties of the deduplication loop\<close>

text \<open>The loop appends to \<^verbatim>\<open>unique_entries\<close> exactly the entries whose file name is
  neither in \<^verbatim>\<open>seen_files\<close> nor carried by an earlier entry.\<close>

lemma dedupe_loop_fst:
  "fst (dedupe_loop es seen uniq n) =
     uniq @ map ((!) es)
       (filter (\<lambda>i. filename_of (snd (es ! i)) \<notin> seen \<union> (\<lambda>e. filename_of (snd e)) ` set (take i es))
          [0..<length es])"
proof (induction es arbitrary: seen uniq n)
  case Nil
  then show ?case by simp
next
  case (Cons e es)
  obtain uuid name where e: "e = (uuid, name)" by (cases e)
  let ?k = "filename_of name"
  let ?P = "\<lambda>S i. filename_of (snd (es ! i)) \<notin> S \<union> (\<lambda>e. filename_of (snd e)) ` set (take i es)"
  have upt: "[0..<length (e # es)] = 0 # map Suc [0..<length es]"
    by (simp add: upt_conv_Cons map_Suc_upt del: upt_Suc)
  have tl: "map ((!) (e # es))
              (filter (\<lambda>i. filename_of (snd ((e # es) ! i))
                         \<notin> seen \<union> (\<lambda>e. filename_of (snd e)) ` set (take i (e # es)))
                 (map Suc [0..<length es]))
          = map ((!) es) (filter (?P (insert ?k seen)) [0..<length es])"
    by (simp add: filter_map comp_def e, rule arg_cong[where f="map ((!) es)"],
        rule filter_cong, simp, blast)
  show ?case
  proof (cases "?k \<in> seen")
    case True
    then have "insert ?k seen = seen" by auto
    with True show ?thesis
      unfolding upt using Cons.IH[of seen uniq "n + 1"] tl
      by (simp add: e)
  next
    case False
    then show ?thesis
      unfolding upt using Cons.IH[of "insert ?k seen" "uniq @ [(uuid, name)]" n] tl
      by (simp add: e)
  qed
qed

lemma dedupe_loop_snd:
  "snd (dedupe_loop es seen uniq n) + length (fst (dedupe_loop es seen uniq n))
     = n + length uniq + length es"
  by (induction es seen uniq n rule: dedupe_loop.induct) (auto simp: Let_def)

lemma earlier_keys:
  assumes "i < length es"
  shows "(f (es ! i) \<notin> f ` set (take i es)) = (\<forall>j<i. f (es ! j) \<noteq> f (es ! i))"
proof -
  have "set (take i es) = (!) es ` {0..<i}"
    using assms nth_image[of i es] by simp
  then show ?thesis by (auto simp: image_iff Bex_def)
qed

lemma filename_of_examples:
  "filename_of ''A.swift in Sources'' = ''A.swift''"
  "filename_of ''B.swift in Sources'' = ''B.swift''"
  by (simp_all add: filename_of_def strip_def lstrip_def rstrip_def is_space_def)



section \<open>Reading back a rebuilt files list\<close>

text \<open>An entry as the pattern of line 38 delivers it, and the six pieces of its row.\<close>

definition valid_entry :: "entry \<Rightarrow> bool" where
  "valid_entry e \<longleftrightarrow> (case e of (uuid, name) \<Rightarrow>
     length uuid = 24 \<and> list_all is_hex_upper uuid \<and> name \<noteq> [] \<and> CHR ''*'' \<notin> set name)"

definition entry_pieces :: "entry \<Rightarrow> string list" where
  "entry_pieces e = (case e of (uuid, name) \<Rightarrow>
     [[TAB, TAB, TAB, TAB], uuid, '' /* '', name, '' */'', '',''])"

lemma name_tail_match:
  assumes "CHR ''*'' \<notin> set n"
  shows "match_seq [Star (\<lambda>c. c \<noteq> CHR ''*''), Lit '' */'', Opt (\<lambda>c. c = CHR '','')]
           (n @ '' */,'' @ NL # rest) = Some ([n, '' */'', '',''], NL # rest)"
  using assms by (induction n) auto

lemma name_match:
  assumes "CHR ''*'' \<notin> set n" "n \<noteq> []"
  shows "match_seq [Plus (\<lambda>c. c \<noteq> CHR ''*''), Lit '' */'', Opt (\<lambda>c. c = CHR '','')]
           (n @ '' */,'' @ NL # rest) = Some ([n, '' */'', '',''], NL # rest)"
proof -
  from assms obtain x n' where n: "n = x # n'" by (cases n) auto
  with assms(1) have "x \<noteq> CHR ''*''" "CHR ''*'' \<notin> set n'" by auto
  with n name_tail_match[of n' rest] show ?thesis by simp
qed

lemma hex_not_blank: "is_hex_upper c \<Longrightarrow> c \<noteq> TAB \<and> c \<noteq> CHR '' ''"
  by (auto simp: is_hex_upper_def)

lemma entry_row_match:
  assumes "valid_entry e"
  shows "match_seq entry_rx (entry_row e @ rest) = Some (entry_pieces e, NL # rest)"
proof -
  obtain u n where e: "e = (u, n)" by (cases e)
  from assms e have u: "length u = 24" "list_all is_hex_upper u" and n: "n \<noteq> []" "CHR ''*'' \<notin> set n"
    by (auto simp: valid_entry_def)
  from u obtain h u' where hu: "u = h # u'" by (cases u) auto
  with u have h: "h \<noteq> TAB" "h \<noteq> CHR '' ''" using hex_not_blank[of h] by auto
  have rep: "match_seq [Rep 24 is_hex_upper, Lit '' /* '', Plus (\<lambda>c. c \<noteq> CHR ''*''), Lit '' */'', Opt (\<lambda>c. c = CHR '','')]
          (u @ '' /* '' @ n @ '' */,'' @ NL # rest) = Some ([u, '' /* '', n, '' */'', '',''], NL # rest)"
    using u name_match[OF n(2) n(1), of rest] by simp
  have "match_seq entry_rx ([TAB, TAB, TAB, TAB] @ (h # u') @ '' /* '' @ n @ '' */,'' @ NL # rest)
      = Some ([[TAB, TAB, TAB, TAB], u, '' /* '', n, '' */'', '',''], NL # rest)"
    using rep h unfolding entry_rx_def hu by simp
  then show ?thesis by (simp add: e entry_row_def entry_pieces_def hu)
qed

lemma entry_rx_NL: "match_seq entry_rx (NL # s) = None"
  by (auto simp: entry_rx_def is_hex_upper_def list_all_iff dest!: in_set_takeD)

lemma re_search_NL: "re_search entry_rx (NL # s) = (case re_search entry_rx s of None \<Rightarrow> None | Some (pre, ps, r) \<Rightarrow> Some (NL # pre, ps, r))"
proof -
  have gen: "search_from as (p @ q) s = (case search_from as q s of None \<Rightarrow> None | Some (pre, ps, r) \<Rightarrow> Some (p @ pre, ps, r))" for as p q s
    by (induction s arbitrary: q) (auto split: option.splits)
  show ?thesis
    using gen[of entry_rx "[NL]" "[]" s] by (auto simp add: re_search_def entry_rx_NL split: option.splits)
qed

lemma findall_tail: "re_findall entry_rx [NL, TAB, TAB, TAB] = []"
  by (simp add: re_findall.simps re_search_def entry_rx_def)

lemma entry_pieces_nonempty: "concat (entry_pieces e) \<noteq> []"
  by (cases e) (simp add: entry_pieces_def)

lemma findall_rendered:
  assumes "list_all valid_entry es"
  shows "re_findall entry_rx (NL # concat (map entry_row es) @ [TAB, TAB, TAB]) = map entry_pieces es"
  using assms
proof (induction es)
  case Nil
  then show ?case by (simp add: findall_tail)
next
  case (Cons e es)
  let ?rest = "concat (map entry_row es) @ [TAB, TAB, TAB]"
  have "re_search entry_rx (entry_row e @ ?rest) = Some ([], entry_pieces e, NL # ?rest)"
  proof -
    from Cons.prems have v: "valid_entry e" by simp
    obtain u n where e: "e = (u, n)" by (cases e)
    have "entry_row e @ ?rest \<noteq> []" by (simp add: e entry_row_def)
    then obtain x xs where x: "entry_row e @ ?rest = x # xs" by (cases "entry_row e @ ?rest") auto
    show ?thesis
      unfolding re_search_def x using entry_row_match[OF v, of ?rest] unfolding x by simp
  qed
  then have "re_search entry_rx (NL # entry_row e @ ?rest) = Some ([NL], entry_pieces e, NL # ?rest)"
    by (simp add: re_search_NL)
  then have "re_findall entry_rx (NL # entry_row e @ ?rest) = entry_pieces e # re_findall entry_rx (NL # ?rest)"
    by (subst re_findall.simps) (simp add: entry_pieces_nonempty del: concat_eq_Nil_conv)
  with Cons show ?case by simp
qed

lemma new_files_concat: "new_files es = NL # concat (map entry_row es) @ [TAB, TAB, TAB]"
proof -
  have "foldl (\<lambda>acc e. acc @ entry_row e) a es = a @ concat (map entry_row es)" for a
    by (induction es arbitrary: a) auto
  then show ?thesis by (simp add: new_files_def)
qed

lemma file_entries_new_files:
  assumes "list_all valid_entry es"
  shows "file_entries (new_files es) = es"
proof -
  have "(\<lambda>ps. (grp ps 1 1, grp ps 3 1)) \<circ> entry_pieces = id"
    by (auto simp: entry_pieces_def grp_def fun_eq_iff)
  then show ?thesis
    unfolding file_entries_def new_files_concat findall_rendered[OF assms]
    by (simp add: map_idI)
qed



abbreviation key :: "entry \<Rightarrow> string" where "key e \<equiv> filename_of (snd e)"




lemma unique_entries_id:
  assumes "distinct (map key es)"
  shows "unique_entries es = es"
proof -
  have "key (es ! i) \<notin> key ` set (take i es)" if i: "i < length es" for i
  proof -
    have "\<forall>j<i. key (es ! j) \<noteq> key (es ! i)"
    proof (intro allI impI)
      fix j assume "j < i"
      with i assms have "map key es ! j \<noteq> map key es ! i"
        using nth_eq_iff_index_eq[of "map key es" j i] by simp
      with i \<open>j < i\<close> show "key (es ! j) \<noteq> key (es ! i)" by simp
    qed
    then show ?thesis
      using earlier_keys[OF i, of key] by simp
  qed
  then have "filter (\<lambda>i. key (es ! i) \<notin> {} \<union> key ` set (take i es)) [0..<length es] = [0..<length es]"
    by (intro filter_True) simp
  then show ?thesis
    unfolding unique_entries_def dedupe_loop_fst by (simp add: map_nth)
qed



section \<open>Which entries \<^verbatim>\<open>deduplicate_sources\<close> keeps\<close>









section \<open>Writing back without a duplicate\<close>

text \<open>A files list in the layout the script writes, two different files.\<close>

definition ex_canonical :: string where
  "ex_canonical = [TAB, TAB] @ ''J01 /* Sources */ = {'' @ [NL]
     @ [TAB, TAB, TAB] @ ''isa = PBXSourcesBuildPhase;'' @ [NL]
     @ [TAB, TAB, TAB] @ ''files = ('' @ [NL]
     @ [TAB, TAB, TAB, TAB] @ ''AAAAAAAAAAAAAAAAAAAAAA01 /* A.swift in Sources */,'' @ [NL]
     @ [TAB, TAB, TAB, TAB] @ ''AAAAAAAAAAAAAAAAAAAAAA03 /* B.swift in Sources */,'' @ [NL]
     @ [TAB, TAB, TAB] @ '');'' @ [NL]
     @ [TAB, TAB] @ ''};'' @ [NL]"

lemma ex_canonical_search:
  "re_search sources_rx ex_canonical =
     Some ([TAB, TAB] @ ''J01 '',
       [''/* Sources */ = {'', [NL, TAB, TAB, TAB], ''isa = PBXSourcesBuildPhase;'',
        [NL, TAB, TAB, TAB], ''files = ('',
        [NL, TAB, TAB, TAB, TAB] @ ''AAAAAAAAAAAAAAAAAAAAAA01 /* A.swift in Sources */,'' @ [NL]
          @ [TAB, TAB, TAB, TAB] @ ''AAAAAAAAAAAAAAAAAAAAAA03 /* B.swift in Sources */,'' @ [NL]
          @ [TAB, TAB, TAB],
        '');''],
       [NL, TAB, TAB] @ ''};'' @ [NL])"
  unfolding ex_canonical_def by code_simp


text \<open>
  Claim C4, as the code has it.  The script has no separate parse and serialize: it reads
  the entries of the matched files list and writes the list anew.  With no duplicate to
  remove it writes the text back unchanged when the list already has the layout of lines
  62 to 65: a newline, then each entry as four tabs, a 24-digit upper-case hexadecimal
  identifier, the name in a comment, a comma and a newline, then three tabs.
\<close>

theorem dedupe_roundtrip_canonical:
  assumes "re_search sources_rx content = Some (pre, ps, post)"
    and "grp ps 5 1 = new_files es"
    and "list_all valid_entry es"
    and "distinct (map (\<lambda>e. filename_of (snd e)) es)"
  shows "deduplicate_sources content = Some content"
proof -
  have "new_files (unique_entries (file_entries (grp ps 5 1))) = grp ps 5 1"
    using assms(2-) by (simp add: file_entries_new_files unique_entries_id)
  with dedupe_Some[OF assms(1)] show ?thesis by simp
qed

theorem dedupe_roundtrip_canonical_witness: "deduplicate_sources ex_canonical = Some ex_canonical"
proof (rule dedupe_roundtrip_canonical[OF ex_canonical_search])
  let ?es = "[(''AAAAAAAAAAAAAAAAAAAAAA01'', ''A.swift in Sources''),
              (''AAAAAAAAAAAAAAAAAAAAAA03'', ''B.swift in Sources'')]"
  show "grp [''/* Sources */ = {'', [NL, TAB, TAB, TAB], ''isa = PBXSourcesBuildPhase;'',
        [NL, TAB, TAB, TAB], ''files = ('',
        [NL, TAB, TAB, TAB, TAB] @ ''AAAAAAAAAAAAAAAAAAAAAA01 /* A.swift in Sources */,'' @ [NL]
          @ [TAB, TAB, TAB, TAB] @ ''AAAAAAAAAAAAAAAAAAAAAA03 /* B.swift in Sources */,'' @ [NL]
          @ [TAB, TAB, TAB],
        '');''] 5 1 = new_files ?es"
    by (simp add: grp_def new_files_def entry_row_def)
  show "list_all valid_entry ?es"
    by (simp add: valid_entry_def is_hex_upper_def)
  show "distinct (map (\<lambda>e. filename_of (snd e)) ?es)"
    by (simp add: filename_of_examples)
qed


definition ex_commented :: string where
  "ex_commented = [TAB, TAB] @ ''J01 /* Sources */ = {'' @ [NL]
     @ [TAB, TAB, TAB] @ ''isa = PBXSourcesBuildPhase;'' @ [NL]
     @ [TAB, TAB, TAB] @ ''files = ('' @ [NL]
     @ [TAB, TAB, TAB, TAB] @ ''/* app sources */'' @ [NL]
     @ [TAB, TAB, TAB, TAB] @ ''AAAAAAAAAAAAAAAAAAAAAA01 /* A.swift in Sources */,'' @ [NL]
     @ [TAB, TAB, TAB] @ '');'' @ [NL]
     @ [TAB, TAB] @ ''};'' @ [NL]"

lemma ex_commented_run: "deduplicate_sources ex_commented =
   Some ([TAB, TAB] @ ''J01 /* Sources */ = {'' @ [NL]
     @ [TAB, TAB, TAB] @ ''isa = PBXSourcesBuildPhase;'' @ [NL]
     @ [TAB, TAB, TAB] @ ''files = ('' @ [NL]
     @ [TAB, TAB, TAB, TAB] @ ''AAAAAAAAAAAAAAAAAAAAAA01 /* A.swift in Sources */,'' @ [NL]
     @ [TAB, TAB, TAB] @ '');'' @ [NL]
     @ [TAB, TAB] @ ''};'' @ [NL])"
  unfolding ex_commented_def by code_simp

lemma ex_commented_dups:
  "duplicates_removed (file_entries ([NL, TAB, TAB, TAB, TAB] @ ''/* app sources */'' @ [NL]
     @ [TAB, TAB, TAB, TAB] @ ''AAAAAAAAAAAAAAAAAAAAAA01 /* A.swift in Sources */,'' @ [NL]
     @ [TAB, TAB, TAB])) = 0"
  by code_simp

text \<open>
  Claim C4 as stated fails: the files list of \<open>ex_commented\<close> holds one entry and a
  comment line.  No duplicate is removed, yet the text written differs from the text
  read: the comment line, which the entry pattern does not recognise, is gone.
\<close>

theorem dedupe_roundtrip_counterexample:
  "duplicates_removed (file_entries ([NL, TAB, TAB, TAB, TAB] @ ''/* app sources */'' @ [NL]
     @ [TAB, TAB, TAB, TAB] @ ''AAAAAAAAAAAAAAAAAAAAAA01 /* A.swift in Sources */,'' @ [NL]
     @ [TAB, TAB, TAB])) = 0
   \<and> deduplicate_sources ex_commented \<noteq> Some ex_commented"
  unfolding ex_commented_run ex_commented_dups unfolding ex_commented_def by simp

section \<open>Running \<^verbatim>\<open>deduplicate_sources\<close> a second time\<close>









































section \<open>Scripts that add one file\<close>

lemma find_bounds: "find sub s = -1 \<or> 0 \<le> find sub s"
  by (induction s) (auto simp: Let_def)

lemma find_append: "0 \<le> find sub (pre @ sub @ post)"
proof (induction pre)
  case Nil
  have "take (length sub) (sub @ post) = sub" by simp
  then show ?case by (cases "sub @ post") auto
next
  case (Cons x pre)
  then show ?case by (auto simp: Let_def)
qed

lemma find_split: "0 \<le> find sub s \<Longrightarrow> \<exists>pre post. s = pre @ sub @ post"
proof (induction s)
  case Nil
  then show ?case by (auto split: if_splits)
next
  case (Cons x xs)
  show ?case
  proof (cases "take (length sub) (x # xs) = sub")
    case True
    then have "x # xs = [] @ sub @ drop (length sub) (x # xs)"
      by (metis append_Nil append_take_drop_id)
    then show ?thesis by blast
  next
    case False
    with Cons.prems have "0 \<le> find sub xs" by (auto simp: Let_def split: if_splits)
    from Cons.IH[OF this] obtain pre post where "xs = pre @ sub @ post" by blast
    then have "x # xs = (x # pre) @ sub @ post" by simp
    then show ?thesis by blast
  qed
qed

lemma isin_iff: "isin sub s \<longleftrightarrow> (\<exists>pre post. s = pre @ sub @ post)"
proof
  assume "isin sub s"
  with find_bounds[of sub s] have "0 \<le> find sub s" by (simp add: isin_def)
  then show "\<exists>pre post. s = pre @ sub @ post" by (rule find_split)
next
  assume "\<exists>pre post. s = pre @ sub @ post"
  then obtain pre post where "s = pre @ sub @ post" by blast
  with find_append[of sub pre post] show "isin sub s" by (simp add: isin_def)
qed


abbreviation DQ :: char where "DQ \<equiv> CHR 0x22"

text \<open>What a call of an adding script does with the project file: it reports the file
  as already there and returns without writing, or it writes a new text.\<close>

datatype add_result = AlreadyPresent | Written string

text \<open>The two rows every adding script formats for a file: the \<^verbatim>\<open>PBXBuildFile\<close> row and the
  \<^verbatim>\<open>PBXFileReference\<close> row, the latter with the text that follows \<^verbatim>\<open>path = \<close>.\<close>

definition build_file_row :: "string \<Rightarrow> string \<Rightarrow> string \<Rightarrow> string" where
  "build_file_row build_uuid filename file_uuid =
     [TAB, TAB] @ build_uuid @ '' /* '' @ filename @ '' in Sources */ = {isa = PBXBuildFile; fileRef = ''
       @ file_uuid @ '' /* '' @ filename @ '' */; };''"

definition file_ref_row :: "string \<Rightarrow> string \<Rightarrow> string \<Rightarrow> string" where
  "file_ref_row file_uuid filename path =
     [TAB, TAB] @ file_uuid @ '' /* '' @ filename
       @ '' */ = {isa = PBXFileReference; lastKnownFileType = sourcecode.swift; path = ''
       @ path @ ''; sourceTree = '' @ [DQ] @ ''<group>'' @ [DQ] @ ''; };''"

subsection \<open>\<^verbatim>\<open>fix_storage_scope.py\<close>\<close>

text \<open>The patterns of lines 40 and 44, both used with \<^verbatim>\<open>re.DOTALL\<close>:
  \<^verbatim>\<open>(/\* Sources \*/ = \{\s*isa = PBXSourcesBuildPhase;.*?files = \()([^)]*)(\);)\<close> and
  \<^verbatim>\<open>(F01 /\* DoseTap \*/ = \{.*?children = \()([^)]*)(\);)\<close>.  The two identifiers are
  the results of the two calls of \<^verbatim>\<open>generate_uuid\<close>, in the order of the calls.\<close>

definition storage_sources_rx :: "atom list" where
  "storage_sources_rx =
     [Lit ''/* Sources */ = {'', Star is_space, Lit ''isa = PBXSourcesBuildPhase;'',
      StarLazy (\<lambda>c. True), Lit ''files = ('',
      Star (\<lambda>c. c \<noteq> CHR '')''),
      Lit '');'']"

definition f01_group_rx :: "atom list" where
  "f01_group_rx =
     [Lit ''F01 /* DoseTap */ = {'', StarLazy (\<lambda>c. True), Lit ''children = ('',
      Star (\<lambda>c. c \<noteq> CHR '')''),
      Lit '');'']"

definition fix_storage_scope_add_file_to_project ::
  "string \<Rightarrow> string \<Rightarrow> string \<Rightarrow> string \<Rightarrow> string \<Rightarrow> string \<Rightarrow> add_result" where
  "fix_storage_scope_add_file_to_project content filename folder_path rel_path file_uuid build_uuid =
     (if isin filename content then AlreadyPresent
      else
        let build_entry = build_file_row build_uuid filename file_uuid;
            file_entry = file_ref_row file_uuid filename ([DQ] @ rel_path @ [DQ]);
            build_section_end = find ''/* End PBXBuildFile section */'' content;
            content = slice_to content build_section_end @ build_entry @ [NL]
                        @ slice_from content build_section_end;
            ref_section_end = find ''/* End PBXFileReference section */'' content;
            content = slice_to content ref_section_end @ file_entry @ [NL]
                        @ slice_from content ref_section_end;
            content = re_sub storage_sources_rx
                        (\<lambda>ps. grp ps 0 5 @ grp ps 5 1
                           @ [NL, TAB, TAB, TAB, TAB] @ build_uuid @ '' /* '' @ filename
                           @ '' in Sources */,'' @ grp ps 6 1)
                        content;
            content = re_sub f01_group_rx
                        (\<lambda>ps. grp ps 0 3 @ grp ps 3 1
                           @ [NL, TAB, TAB, TAB, TAB] @ file_uuid @ '' /* '' @ filename @ '' */,''
                           @ grp ps 4 1)
                        content
        in Written content)"

subsection \<open>\<^verbatim>\<open>add_presleeplog.py\<close>\<close>

text \<open>The patterns of lines 41 and 50,
  \<^verbatim>\<open>(/\* Views \*/ = \{[^}]*children = \()([^)]*?)(\);)\<close> and
  \<^verbatim>\<open>(/\* Sources \*/ = \{[^}]*files = \()([^)]*?)(\);)\<close>; \<open>append_to_list\<close> is the
  edit both blocks of lines 42 to 56 make.  \<open>uuid1\<close> and \<open>uuid2\<close> are the results of the
  two calls of \<^verbatim>\<open>generate_uuid\<close>.\<close>

definition views_group_rx :: "atom list" where
  "views_group_rx =
     [Lit ''/* Views */ = {'', Star (\<lambda>c. c \<noteq> CHR ''}''), Lit ''children = ('',
      StarLazy (\<lambda>c. c \<noteq> CHR '')''),
      Lit '');'']"

definition presleep_sources_rx :: "atom list" where
  "presleep_sources_rx =
     [Lit ''/* Sources */ = {'', Star (\<lambda>c. c \<noteq> CHR ''}''), Lit ''files = ('',
      StarLazy (\<lambda>c. c \<noteq> CHR '')''),
      Lit '');'']"

definition append_to_list :: "atom list \<Rightarrow> string \<Rightarrow> string \<Rightarrow> string" where
  "append_to_list rx row content =
     (case re_search rx content of
        None \<Rightarrow> content
      | Some m \<Rightarrow>
          (case m of (pre, ps, r) \<Rightarrow>
             let prefix = grp ps 0 3; children = grp ps 3 1; suffix = grp ps 4 1;
                 new_children = rstrip children @ row
             in slice_to content (m_start m) @ prefix @ new_children @ suffix
                  @ slice_from content (m_end m)))"

definition add_presleeplog_add_file_to_project :: "string \<Rightarrow> string \<Rightarrow> string \<Rightarrow> add_result" where
  "add_presleeplog_add_file_to_project content uuid1 uuid2 =
     (if isin ''PreSleepLogView.swift'' content then AlreadyPresent
      else
        let filename = ''PreSleepLogView.swift'';
            build_uuid = ''PSL'' @ take 21 uuid1;
            file_uuid = ''PSL'' @ take 21 uuid2;
            build_entry = build_file_row build_uuid filename file_uuid;
            file_entry = file_ref_row file_uuid filename filename;
            build_section_end = find ''/* End PBXBuildFile section */'' content;
            content = slice_to content build_section_end @ build_entry @ [NL]
                        @ slice_from content build_section_end;
            ref_section_end = find ''/* End PBXFileReference section */'' content;
            content = slice_to content ref_section_end @ file_entry @ [NL]
                        @ slice_from content ref_section_end;
            content = append_to_list views_group_rx
                        ([NL, TAB, TAB, TAB, TAB] @ file_uuid @ '' /* '' @ filename @ '' */,''
                           @ [NL, TAB, TAB, TAB])
                        content;
            content = append_to_list presleep_sources_rx
                        ([NL, TAB, TAB, TAB, TAB] @ build_uuid @ '' /* '' @ filename
                           @ '' in Sources */,'' @ [NL, TAB, TAB, TAB])
                        content
        in Written content)"

section \<open>The check for a file that is already there\<close>

text \<open>
  Claim C9.  Both scripts test \<^verbatim>\<open>filename in content\<close> on the whole text.  Wherever
  the name occurs, be it in a comment, in another section or inside a longer name, the
  call inserts nothing, writes nothing and reports the file as already present.
\<close>

theorem already_present_substring:
  assumes "content = pre @ filename @ post"
  shows "fix_storage_scope_add_file_to_project content filename folder_path rel_path file_uuid build_uuid
           = AlreadyPresent
       \<and> (filename = ''PreSleepLogView.swift'' \<longrightarrow>
            add_presleeplog_add_file_to_project content uuid1 uuid2 = AlreadyPresent)"
proof -
  from assms have "isin filename content" unfolding isin_iff by blast
  then have "fix_storage_scope_add_file_to_project content filename folder_path rel_path file_uuid build_uuid
           = AlreadyPresent"
    and "filename = ''PreSleepLogView.swift'' \<Longrightarrow>
            add_presleeplog_add_file_to_project content uuid1 uuid2 = AlreadyPresent"
    by (simp_all add: fix_storage_scope_add_file_to_project_def add_presleeplog_add_file_to_project_def)
  then show ?thesis by blast
qed

text \<open>A text that mentions \<^verbatim>\<open>TimelineView.swift\<close> only inside a longer name, in a comment.\<close>

definition ex_longer_name :: string where
  "ex_longer_name = ''// MyTimelineView.swift is not part of this target'' @ [NL]
     @ ''/* End PBXBuildFile section */'' @ [NL] @ ''/* End PBXFileReference section */'' @ [NL]"

theorem already_present_substring_witness:
  "fix_storage_scope_add_file_to_project ex_longer_name ''TimelineView.swift'' ''FullApp''
       ''FullApp/TimelineView.swift'' ''0123456789ABCDEF01234567'' ''89ABCDEF0123456789ABCDEF''
     = AlreadyPresent"
  using already_present_substring[of ex_longer_name "''// My''" "''TimelineView.swift''"
     "'' is not part of this target'' @ [NL]
     @ ''/* End PBXBuildFile section */'' @ [NL] @ ''/* End PBXFileReference section */'' @ [NL]"
     "''FullApp''" "''FullApp/TimelineView.swift''" "''0123456789ABCDEF01234567''" "''89ABCDEF0123456789ABCDEF''"]
  by (simp add: ex_longer_name_def)

end
